theory Spec2Isabelle
  imports Complex_Main "HOL-Library.Sublist"
begin

section \<open>cheapRuler: planar approximations of geodesic measurements\<close>

text \<open>
  The development follows the exported implementation (the file with \<open>NewRuler\<close>,
  \<open>Distance\<close>, \<open>Bearing\<close>, ..., \<open>InsideBbox\<close>) and, where a property compares the two,
  the earlier draft \<open>cheapRuler/cheapRuler.go\<close> with its lower-case method names.

  Numbers: Go's \<open>float64\<close> is modelled by \<^typ>\<open>real\<close>. Rounding, signed zeros, infinities
  and NaN are therefore outside the model, and a division by zero (which in Go yields an
  infinity or NaN) is HOL's \<open>x / 0 = 0\<close>. The one infinity the source uses on purpose, the
  initial \<open>minDist\<close> of \<open>PointOnLine\<close>, is modelled by \<open>None\<close>.
  A Go \<open>int\<close> that only ever holds a loop index is a \<^typ>\<open>nat\<close>.
  A run-time panic (index out of range) is the value \<open>Inl IndexOutOfRange\<close>.
\<close>

subsection \<open>Data model\<close>

record Ruler =
  kx :: real
  ky :: real

type_synonym Point = "real \<times> real"

type_synonym Bbox = "real \<times> real \<times> real \<times> real"

type_synonym Line = "Point list"

record PointOnLine =
  point :: Point
  index :: nat
  t :: real

datatype panic = IndexOutOfRange

subsection \<open>The unit table and the constructor\<close>

definition Units :: "string \<Rightarrow> real option" where
  "Units = map_of
     [(''kilometers'', 1),
      (''miles'', 1000 / 1609.344),
      (''nauticalmiles'', 1000 / 1852),
      (''meters'', 1000),
      (''metres'', 1000),
      (''yards'', 1000 / 0.9144),
      (''feet'', 1000 / 0.3048),
      (''inches'', 1000 / 0.0254)]"

text \<open>
  \<open>NewRuler\<close> returns the ruler together with the error value: \<open>None\<close> is Go's \<open>nil\<close>,
  \<open>Some msg\<close> the error made by \<open>errors.New\<close>.
\<close>

definition NewRuler :: "real \<Rightarrow> string \<Rightarrow> Ruler \<times> string option" where
  "NewRuler lat unit =
     (let (m, e) = (case Units unit of
                      Some scale \<Rightarrow> (scale, None)
                    | None \<Rightarrow> (1, Some (unit @ '' is not a valid unit'')));
          cos1 = cos (lat * pi / 180);
          cos2 = 2 * cos1 * cos1 - 1;
          cos3 = 2 * cos1 * cos2 - cos1;
          cos4 = 2 * cos1 * cos3 - cos2;
          cos5 = 2 * cos1 * cos4 - cos3;
          kx = m * (111.41513 * cos1 - 0.09455 * cos3 + 0.00012 * cos5);
          ky = m * (111.13209 - 0.56605 * cos2 + 0.0012 * cos4)
      in (\<lparr>kx = kx, ky = ky\<rparr>, e))"

subsection \<open>Point operations\<close>

definition Distance :: "Ruler \<Rightarrow> Point \<Rightarrow> Point \<Rightarrow> real" where
  "Distance r a b =
     (let dx = (fst a - fst b) * kx r;
          dy = (snd a - snd b) * ky r
      in sqrt (dx * dx + dy * dy))"

text \<open>
  Go's \<open>math.Atan2(y, x)\<close> belongs to the standard library, not to this repository. It is
  modelled by its mathematical meaning: the angle of the vector \<open>(x, y)\<close> against the
  positive \<open>x\<close> axis, with \<open>Atan2 0 0 = 0\<close>.
\<close>

definition Atan2 :: "real \<Rightarrow> real \<Rightarrow> real" where
  "Atan2 y x =
     (if 0 < x then arctan (y / x)
      else if x < 0 then (if 0 \<le> y then arctan (y / x) + pi else arctan (y / x) - pi)
      else if 0 < y then pi / 2
      else if y < 0 then - (pi / 2)
      else 0)"

definition Bearing :: "Ruler \<Rightarrow> Point \<Rightarrow> Point \<Rightarrow> real" where
  "Bearing r a b =
     (let dx = (fst b - fst a) * kx r;
          dy = (snd b - snd a) * ky r
      in if dx = 0 \<and> dy = 0 then 0
         else (let bearing = Atan2 dx dy * 180 / pi
               in if bearing > 180 then bearing - 360 else bearing))"

text \<open>
  The draft \<open>cheapRuler/cheapRuler.go\<close> has the same function under the name \<open>bearing\<close>,
  except that it takes the differences \<open>a - b\<close>.
\<close>

definition bearing :: "Ruler \<Rightarrow> Point \<Rightarrow> Point \<Rightarrow> real" where
  "bearing r a b =
     (let dx = (fst a - fst b) * kx r;
          dy = (snd a - snd b) * ky r
      in if dx = 0 \<and> dy = 0 then 0
         else (let bearing0 = Atan2 dx dy * 180 / pi
               in if bearing0 > 180 then bearing0 - 360 else bearing0))"

definition Offset :: "Ruler \<Rightarrow> Point \<Rightarrow> real \<Rightarrow> real \<Rightarrow> Point" where
  "Offset r p dx dy = (fst p + dx / kx r, snd p + dy / ky r)"

definition interpolate :: "Point \<Rightarrow> Point \<Rightarrow> real \<Rightarrow> Point" where
  "interpolate a b t' =
     (let dx = fst b - fst a;
          dy = snd b - snd a
      in (fst a + dx * t', snd a + dy * t'))"

subsection \<open>Bounding boxes\<close>

text \<open>The source names the quotient by \<open>kx\<close> \<open>v\<close> and the quotient by \<open>ky\<close> \<open>h\<close>.\<close>

definition BufferPoint :: "Ruler \<Rightarrow> Point \<Rightarrow> real \<Rightarrow> Bbox" where
  "BufferPoint r p buffer =
     (let v = buffer / kx r;
          h = buffer / ky r
      in (fst p - h, snd p - v, fst p + h, snd p + v))"

definition BufferBbox :: "Ruler \<Rightarrow> Bbox \<Rightarrow> real \<Rightarrow> Bbox" where
  "BufferBbox r b buffer =
     (case b of (b0, b1, b2, b3) \<Rightarrow>
        (let v = buffer / kx r;
             h = buffer / ky r
         in (b0 - h, b1 - v, b2 + h, b3 + v)))"

definition InsideBbox :: "Ruler \<Rightarrow> Point \<Rightarrow> Bbox \<Rightarrow> bool" where
  "InsideBbox r p b =
     (case b of (b0, b1, b2, b3) \<Rightarrow>
        fst p \<ge> b0 \<and> fst p \<le> b2 \<and> snd p \<ge> b1 \<and> snd p \<le> b3)"

subsection \<open>Line operations\<close>

text \<open>
  Every loop of the source has the form \<open>for i := 0; i < len(l)-1; i++\<close> and reads the
  segment \<open>l[i], l[i+1]\<close>. It is written as a recursion over the line that consumes one
  point per step: the first two points of the remaining line are \<open>l[i]\<close> and \<open>l[i+1]\<close>.
  The variables the loop updates are arguments of the recursion.
\<close>

fun LineDistance_loop :: "Ruler \<Rightarrow> Line \<Rightarrow> real \<Rightarrow> real" where
  "LineDistance_loop r (p0 # p1 # rest) distance =
     LineDistance_loop r (p1 # rest) (distance + Distance r p0 p1)"
| "LineDistance_loop r _ distance = distance"

definition LineDistance :: "Ruler \<Rightarrow> Line \<Rightarrow> real" where
  "LineDistance r l = LineDistance_loop r l 0"



text \<open>
  \<open>PointOnLine\<close>. The first half of the loop body computes the candidate \<open>(x, y)\<close> of
  the segment and, unless the segment is degenerate, assigns \<open>t\<close>; \<open>t\<close> is declared once
  outside the loop, so a degenerate segment leaves the value of the previous iteration.
\<close>

definition segment_snap :: "Ruler \<Rightarrow> Point \<Rightarrow> Point \<Rightarrow> Point \<Rightarrow> real \<Rightarrow> real \<times> real \<times> real" where
  "segment_snap r p a b t0 =
     (let x = fst a;
          y = snd a;
          dx = (fst b - x) * kx r;
          dy = (snd b - y) * ky r
      in if dx \<noteq> 0 \<or> dy \<noteq> 0 then
           (let t1 = ((fst p - x) * kx r * dx + (snd p - y) * ky r * dy) / (dx * dx + dy * dy)
            in if t1 > 1 then (fst b, snd b, t1)
               else if t1 > 0 then (x + (dx / kx r) * t1, y + (dy / ky r) * t1, t1)
               else (x, y, t1))
         else (x, y, t0))"

definition sqDist :: "Ruler \<Rightarrow> Point \<Rightarrow> real \<Rightarrow> real \<Rightarrow> real" where
  "sqDist r p x y =
     (let dx = (fst p - x) * kx r;
          dy = (snd p - y) * ky r
      in dx * dx + dy * dy)"



text \<open>\<open>sqDist < minDist\<close>, where \<open>None\<close> is the initial \<open>math.Inf(1)\<close>.\<close>

fun below :: "real \<Rightarrow> real option \<Rightarrow> bool" where
  "below s None = True"
| "below s (Some m) = (s < m)"

text \<open>The state of the scan is \<open>(minDist, minX, minY, minI, minT)\<close>.\<close>

type_synonym scan = "real option \<times> real \<times> real \<times> nat \<times> real"

fun PointOnLine_loop :: "Ruler \<Rightarrow> Point \<Rightarrow> Line \<Rightarrow> nat \<Rightarrow> real \<Rightarrow> scan \<Rightarrow> scan" where
  "PointOnLine_loop r p (a # b # rest) i t0 (minDist, minX, minY, minI, minT) =
     (case segment_snap r p a b t0 of (x, y, t1) \<Rightarrow>
        if below (sqDist r p x y) minDist
        then PointOnLine_loop r p (b # rest) (i + 1) t1 (Some (sqDist r p x y), x, y, i, t1)
        else PointOnLine_loop r p (b # rest) (i + 1) t1 (minDist, minX, minY, minI, minT))"
| "PointOnLine_loop r p _ i t0 s = s"

definition PointOnLine :: "Ruler \<Rightarrow> Line \<Rightarrow> Point \<Rightarrow> PointOnLine" where
  "PointOnLine r l p =
     (case PointOnLine_loop r p l 0 0 (None, 0, 0, 0, 0) of
        (minDist, minX, minY, minI, minT) \<Rightarrow>
          \<lparr>point = (minX, minY), index = minI, t = max 0 (min 1 minT)\<rparr>)"

text \<open>
  \<open>LineSlice\<close>. \<open>LineSlice_snaps\<close> is the head of the function: the two snaps and the
  exchange. The rest reads \<open>l[left]\<close>, \<open>l[i]\<close> for \<open>left < i \<le> right\<close> and \<open>l[right]\<close>, each
  of which panics out of range.
\<close>

definition LineSlice_snaps :: "Ruler \<Rightarrow> Point \<Rightarrow> Point \<Rightarrow> Line \<Rightarrow> PointOnLine \<times> PointOnLine" where
  "LineSlice_snaps r start end' l =
     (let p1 = PointOnLine r l start;
          p2 = PointOnLine r l end'
      in if index p1 > index p2 \<or> (index p1 = index p2 \<and> t p1 < t p2)
         then (p2, p1) else (p1, p2))"

definition LineSlice :: "Ruler \<Rightarrow> Point \<Rightarrow> Point \<Rightarrow> Line \<Rightarrow> panic + Line" where
  "LineSlice r start end' l =
     (case LineSlice_snaps r start end' l of (p1, p2) \<Rightarrow>
        (let slice = [point p1];
             left = index p1 + 1;
             right = index p2
         in if \<not> left < length l then Inl IndexOutOfRange
            else
              (let slice = (if l ! left \<noteq> slice ! 0 \<and> left \<le> right
                            then slice @ [l ! left] else slice)
               in if left + 1 \<le> right \<and> \<not> right < length l then Inl IndexOutOfRange
                  else
                    (let slice = slice @ map (\<lambda>i. l ! i) [left + 1 ..< right + 1]
                     in if \<not> right < length l then Inl IndexOutOfRange
                        else if l ! right \<noteq> point p2 then Inr (slice @ [point p2])
                        else Inr slice))))"

text \<open>
  \<open>LineSliceAlong\<close>, the exported function: it returns from inside the loop once the
  running sum has reached \<open>stop\<close>.
\<close>

fun LineSliceAlong_loop :: "Ruler \<Rightarrow> real \<Rightarrow> real \<Rightarrow> Line \<Rightarrow> real \<Rightarrow> Line \<Rightarrow> Line" where
  "LineSliceAlong_loop r start stop (p0 # p1 # rest) sum0 slice =
     (let d = Distance r p0 p1;
          sum0 = sum0 + d;
          slice = (if sum0 > start \<and> length slice = 0
                   then slice @ [interpolate p0 p1 ((start - (sum0 - d)) / d)] else slice)
      in if sum0 \<ge> stop then slice @ [interpolate p0 p1 ((stop - (sum0 - d)) / d)]
         else LineSliceAlong_loop r start stop (p1 # rest) sum0
                (if sum0 > start then slice @ [p1] else slice))"
| "LineSliceAlong_loop r start stop _ sum0 slice = slice"

definition LineSliceAlong :: "Ruler \<Rightarrow> real \<Rightarrow> real \<Rightarrow> Line \<Rightarrow> Line" where
  "LineSliceAlong r start stop l = LineSliceAlong_loop r start stop l 0 []"

text \<open>
  \<open>lineSliceAlong\<close>, the draft of \<open>cheapRuler/cheapRuler.go\<close>: the same body without the
  \<open>return\<close>, so the scan always runs to the end of the line.
\<close>

fun lineSliceAlong_loop :: "Ruler \<Rightarrow> real \<Rightarrow> real \<Rightarrow> Line \<Rightarrow> real \<Rightarrow> Line \<Rightarrow> Line" where
  "lineSliceAlong_loop r start stop (p0 # p1 # rest) sum0 slice =
     (let d = Distance r p0 p1;
          sum0 = sum0 + d;
          slice = (if sum0 > start \<and> length slice = 0
                   then slice @ [interpolate p0 p1 ((start - (sum0 - d)) / d)] else slice);
          slice = (if sum0 \<ge> stop
                   then slice @ [interpolate p0 p1 ((stop - (sum0 - d)) / d)] else slice);
          slice = (if sum0 > start then slice @ [p1] else slice)
      in lineSliceAlong_loop r start stop (p1 # rest) sum0 slice)"
| "lineSliceAlong_loop r start stop _ sum0 slice = slice"

definition lineSliceAlong :: "Ruler \<Rightarrow> real \<Rightarrow> real \<Rightarrow> Line \<Rightarrow> Line" where
  "lineSliceAlong r start stop l = lineSliceAlong_loop r start stop l 0 []"

section \<open>Properties\<close>

subsection \<open>Bounding boxes\<close>

text \<open>
  C2, evaluated on the code. With \<open>kx = 1\<close>, \<open>ky = 2\<close> and \<open>buffer = 2\<close> the longitude edges
  of \<open>BufferPoint\<close> and of \<open>BufferBbox\<close> move by \<open>buffer / ky = 1\<close> and the latitude edges
  by \<open>buffer / kx = 2\<close>: the two quotients are exchanged with respect to
  \<open>[lon - buffer/kx, lat - buffer/ky, lon + buffer/kx, lat + buffer/ky]\<close>, which here
  would be \<open>(-2, -1, 2, 1)\<close>. The west edge is then at distance \<open>1\<close> from the point, not
  at the margin \<open>2\<close>, while \<open>Offset\<close> by \<open>-2\<close> ruler units on both axes gives the corner
  \<open>(-2, -1)\<close>.
\<close>

theorem Buffer_quotients_exchanged:
  "BufferPoint \<lparr>kx = 1, ky = 2\<rparr> (0, 0) 2 = (-1, -2, 1, 2)
   \<and> BufferPoint \<lparr>kx = 1, ky = 2\<rparr> (0, 0) 2 \<noteq> (0 - 2 / 1, 0 - 2 / 2, 0 + 2 / 1, 0 + 2 / 2)
   \<and> BufferBbox \<lparr>kx = 1, ky = 2\<rparr> (0, 0, 0, 0) 2 = (-1, -2, 1, 2)
   \<and> Distance \<lparr>kx = 1, ky = 2\<rparr> (0, 0) (-1, 0) = 1
   \<and> Offset \<lparr>kx = 1, ky = 2\<rparr> (0, 0) (-2) (-2) = (-2, -1)"
  by (simp add: BufferPoint_def BufferBbox_def Distance_def Offset_def Let_def)

text \<open>
  C10: for a ruler with positive scale factors and a buffer that is not negative, a
  point lies inside its own buffered bounding box (also when \<open>buffer = 0\<close>).
\<close>

theorem InsideBbox_BufferPoint:
  assumes "0 < kx r" and "0 < ky r" and "0 \<le> buffer"
  shows "InsideBbox r p (BufferPoint r p buffer)"
  using assms by (simp add: InsideBbox_def BufferPoint_def Let_def)

theorem InsideBbox_BufferPoint_witness:
  "InsideBbox \<lparr>kx = 2, ky = 3\<rparr> (1, 1) (BufferPoint \<lparr>kx = 2, ky = 3\<rparr> (1, 1) 0)
   \<and> InsideBbox \<lparr>kx = 2, ky = 3\<rparr> (1, 1) (BufferPoint \<lparr>kx = 2, ky = 3\<rparr> (1, 1) 6)"
  using InsideBbox_BufferPoint [of "\<lparr>kx = 2, ky = 3\<rparr>" 0 "(1, 1)"]
    InsideBbox_BufferPoint [of "\<lparr>kx = 2, ky = 3\<rparr>" 6 "(1, 1)"]
  by simp

subsection \<open>The constructor\<close>

text \<open>
  C6: \<open>NewRuler lat unit\<close> returns an error exactly when \<open>unit\<close> is not a key of
  \<open>Units\<close>, and in that case the ruler is the one \<open>NewRuler lat ''kilometers''\<close> returns.
\<close>

theorem NewRuler_error_iff:
  "(snd (NewRuler lat unit) \<noteq> None) = (unit \<notin> dom Units)
   \<and> (snd (NewRuler lat unit) \<noteq> None \<longrightarrow>
        fst (NewRuler lat unit) = fst (NewRuler lat ''kilometers''))"
proof -
  have km: "Units ''kilometers'' = Some 1"
    by (simp add: Units_def)
  show ?thesis
  proof (cases "Units unit")
    case None
    then show ?thesis
      by (simp add: NewRuler_def km Let_def domIff)
  next
    case (Some scale)
    then show ?thesis
      by (simp add: NewRuler_def Let_def domIff)
  qed
qed

theorem NewRuler_error_iff_witness:
  "snd (NewRuler 42 ''furlongs'') \<noteq> None
   \<and> ''furlongs'' \<notin> dom Units
   \<and> fst (NewRuler 42 ''furlongs'') = fst (NewRuler 42 ''kilometers'')
   \<and> snd (NewRuler 42 ''miles'') = None"
proof -
  have a: "Units ''furlongs'' = None"
    by (simp add: Units_def)
  have b: "Units ''miles'' \<noteq> None"
    by (simp add: Units_def)
  show ?thesis
    using NewRuler_error_iff [of 42 "''furlongs''"] NewRuler_error_iff [of 42 "''miles''"] a b
    by (simp add: domIff)
qed

subsection \<open>Bearing\<close>



text \<open>The draft's \<open>bearing\<close> is the bearing in the opposite direction, from \<open>b\<close> to \<open>a\<close>.\<close>

lemma bearing_draft_reversed: "bearing r a b = Bearing r b a"
  by (simp add: bearing_def Bearing_def)

subsection \<open>Slicing between two points\<close>

lemma snap_quarter:
  "PointOnLine \<lparr>kx = 1, ky = 1\<rparr> [(0, 0), (4, 0)] (1, 0) = \<lparr>point = (1, 0), index = 0, t = 1 / 4\<rparr>"
  by (simp add: PointOnLine_def segment_snap_def sqDist_def Let_def)

lemma snap_three_quarters:
  "PointOnLine \<lparr>kx = 1, ky = 1\<rparr> [(0, 0), (4, 0)] (3, 0) = \<lparr>point = (3, 0), index = 0, t = 3 / 4\<rparr>"
  by (simp add: PointOnLine_def segment_snap_def sqDist_def Let_def)

text \<open>
  C1, evaluated on the code. On the line from \<open>(0, 0)\<close> to \<open>(4, 0)\<close>, \<open>start = (1, 0)\<close> snaps
  to segment 0 at \<open>t = 1/4\<close> and \<open>end = (3, 0)\<close> to segment 0 at \<open>t = 3/4\<close>: the snapped
  start lies before the snapped end. The test \<open>p1.t < p2.t\<close> nevertheless exchanges them,
  and the slice begins with the later snap point: it runs against the line's direction.
\<close>

theorem LineSlice_same_segment_reversed:
  "LineSlice_snaps \<lparr>kx = 1, ky = 1\<rparr> (1, 0) (3, 0) [(0, 0), (4, 0)] =
     (\<lparr>point = (3, 0), index = 0, t = 3 / 4\<rparr>, \<lparr>point = (1, 0), index = 0, t = 1 / 4\<rparr>)
   \<and> LineSlice \<lparr>kx = 1, ky = 1\<rparr> (1, 0) (3, 0) [(0, 0), (4, 0)] = Inr [(3, 0), (1, 0)]"
  by (simp add: LineSlice_def LineSlice_snaps_def snap_quarter snap_three_quarters Let_def)

subsection \<open>Length of a line and the point at a distance along it\<close>

lemma Distance_nonneg: "0 \<le> Distance r a b"
  by (simp add: Distance_def Let_def)


lemma LineDistance_loop_ge: "s \<le> LineDistance_loop r l s"
proof (induction r l s rule: LineDistance_loop.induct)
  case (1 r p0 p1 rest distance)
  have "distance \<le> distance + Distance r p0 p1"
    using Distance_nonneg [of r p0 p1] by simp
  with 1 show ?case by simp
qed simp_all






subsection \<open>Slicing between two distances: the exported function and the draft\<close>

lemma LineDistance_loop_take_Suc:
  "LineDistance_loop r (take (Suc j + 2) (p0 # p1 # rest)) s =
   LineDistance_loop r (take (j + 2) (p1 # rest)) (s + Distance r p0 p1)"
  by simp

lemma draft_extends: "prefix acc (lineSliceAlong_loop r start stop l s acc)"
proof (induction l arbitrary: s acc)
  case Nil
  show ?case by simp
next
  case (Cons p0 l')
  show ?case
  proof (cases l')
    case Nil
    then show ?thesis by simp
  next
    case (Cons p1 rest)
    define sm where "sm = s + Distance r p0 p1"
    define s1 where "s1 = (if sm > start \<and> length acc = 0
       then acc @ [interpolate p0 p1 ((start - (sm - Distance r p0 p1)) / Distance r p0 p1)] else acc)"
    define s2 where "s2 = (if sm \<ge> stop
       then s1 @ [interpolate p0 p1 ((stop - (sm - Distance r p0 p1)) / Distance r p0 p1)] else s1)"
    define s3 where "s3 = (if sm > start then s2 @ [p1] else s2)"
    have step: "lineSliceAlong_loop r start stop (p0 # l') s acc =
                lineSliceAlong_loop r start stop l' sm s3"
      unfolding Cons sm_def s1_def s2_def s3_def by (simp add: Let_def)
    have "prefix acc s1" by (simp add: s1_def)
    also have "prefix s1 s2" by (simp add: s2_def)
    also have "prefix s2 s3" by (simp add: s3_def)
    also have "prefix s3 (lineSliceAlong_loop r start stop l' sm s3)"
      by (rule Cons.IH)
    finally show ?thesis by (simp add: step)
  qed
qed

lemma exported_prefix_draft:
  "prefix (LineSliceAlong_loop r start stop l s acc) (lineSliceAlong_loop r start stop l s acc)"
proof (induction l arbitrary: s acc)
  case Nil
  show ?case by simp
next
  case (Cons p0 l')
  show ?case
  proof (cases l')
    case Nil
    then show ?thesis by simp
  next
    case (Cons p1 rest)
    define sm where "sm = s + Distance r p0 p1"
    define s1 where "s1 = (if sm > start \<and> length acc = 0
       then acc @ [interpolate p0 p1 ((start - (sm - Distance r p0 p1)) / Distance r p0 p1)] else acc)"
    define s2 where "s2 = (if sm \<ge> stop
       then s1 @ [interpolate p0 p1 ((stop - (sm - Distance r p0 p1)) / Distance r p0 p1)] else s1)"
    define s3 where "s3 = (if sm > start then s2 @ [p1] else s2)"
    have step: "lineSliceAlong_loop r start stop (p0 # l') s acc =
                lineSliceAlong_loop r start stop l' sm s3"
      unfolding Cons sm_def s1_def s2_def s3_def by (simp add: Let_def)
    show ?thesis
    proof (cases "sm \<ge> stop")
      case True
      then have e: "LineSliceAlong_loop r start stop (p0 # l') s acc = s2"
        unfolding Cons sm_def s1_def s2_def by (simp add: Let_def)
      have "prefix s2 s3" by (simp add: s3_def)
      also have "prefix s3 (lineSliceAlong_loop r start stop l' sm s3)"
        by (rule draft_extends)
      finally show ?thesis by (simp add: e step)
    next
      case False
      then have e: "LineSliceAlong_loop r start stop (p0 # l') s acc =
                    LineSliceAlong_loop r start stop l' sm s3"
        unfolding Cons sm_def s1_def s2_def s3_def by (simp add: Let_def)
      show ?thesis unfolding e step by (rule Cons.IH)
    qed
  qed
qed

lemma exported_eq_draft_unreached:
  "(\<forall>j. j + 1 < length l \<longrightarrow> LineDistance_loop r (take (j + 2) l) s < stop) \<Longrightarrow>
   LineSliceAlong_loop r start stop l s acc = lineSliceAlong_loop r start stop l s acc"
proof (induction l arbitrary: s acc)
  case Nil
  show ?case by simp
next
  case (Cons p0 l')
  show ?case
  proof (cases l')
    case Nil
    then show ?thesis by simp
  next
    case (Cons p1 rest)
    define sm where "sm = s + Distance r p0 p1"
    define s1 where "s1 = (if sm > start \<and> length acc = 0
       then acc @ [interpolate p0 p1 ((start - (sm - Distance r p0 p1)) / Distance r p0 p1)] else acc)"
    define s3 where "s3 = (if sm > start then s1 @ [p1] else s1)"
    have "0 + 1 < length (p0 # l')" by (simp add: Cons)
    then have "LineDistance_loop r (take (0 + 2) (p0 # l')) s < stop"
      by (rule Cons.prems [rule_format])
    then have lt: "sm < stop" by (simp add: Cons sm_def)
    have step: "lineSliceAlong_loop r start stop (p0 # l') s acc =
                lineSliceAlong_loop r start stop l' sm s3"
      using lt unfolding Cons sm_def s1_def s3_def by (simp add: Let_def)
    have e: "LineSliceAlong_loop r start stop (p0 # l') s acc =
             LineSliceAlong_loop r start stop l' sm s3"
      using lt unfolding Cons sm_def s1_def s3_def by (simp add: Let_def)
    have "\<forall>j. j + 1 < length l' \<longrightarrow> LineDistance_loop r (take (j + 2) l') sm < stop"
    proof (intro allI impI)
      fix j assume "j + 1 < length l'"
      then have "Suc j + 1 < length (p0 # l')" by simp
      then have "LineDistance_loop r (take (Suc j + 2) (p0 # l')) s < stop"
        by (rule Cons.prems [rule_format])
      then show "LineDistance_loop r (take (j + 2) l') sm < stop"
        unfolding Cons sm_def by simp
    qed
    then show ?thesis unfolding e step by (rule Cons.IH)
  qed
qed

text \<open>
  C5: the result of the exported \<open>LineSliceAlong\<close> is a prefix of the result of the draft
  \<open>lineSliceAlong\<close>, so the draft only appends further points behind it; and when the
  running sum of segment lengths stays below \<open>stop\<close> on every segment, the two results
  are equal. The running sum after segment \<open>j\<close> is the length of the first \<open>j + 2\<close> points.
\<close>

theorem LineSliceAlong_prefix_of_draft:
  "prefix (LineSliceAlong r start stop l) (lineSliceAlong r start stop l)
   \<and> ((\<forall>j. j + 1 < length l \<longrightarrow> LineDistance r (take (j + 2) l) < stop) \<longrightarrow>
        LineSliceAlong r start stop l = lineSliceAlong r start stop l)"
proof (intro conjI impI)
  show "prefix (LineSliceAlong r start stop l) (lineSliceAlong r start stop l)"
    unfolding LineSliceAlong_def lineSliceAlong_def by (rule exported_prefix_draft)
next
  assume "\<forall>j. j + 1 < length l \<longrightarrow> LineDistance r (take (j + 2) l) < stop"
  then show "LineSliceAlong r start stop l = lineSliceAlong r start stop l"
    unfolding LineSliceAlong_def lineSliceAlong_def LineDistance_def
    by (rule exported_eq_draft_unreached)
qed

lemma Distance_unit_east: "Distance \<lparr>kx = 1, ky = 1\<rparr> (0, 0) (1, 0) = 1"
  by (simp add: Distance_def)

lemma Distance_unit_north: "Distance \<lparr>kx = 1, ky = 1\<rparr> (1, 0) (1, 1) = 1"
  by (simp add: Distance_def)

theorem LineSliceAlong_prefix_of_draft_witness:
  "LineSliceAlong \<lparr>kx = 1, ky = 1\<rparr> 0 1 [(0, 0), (1, 0), (1, 1)] = [(0, 0), (1, 0)]
   \<and> lineSliceAlong \<lparr>kx = 1, ky = 1\<rparr> 0 1 [(0, 0), (1, 0), (1, 1)] =
       [(0, 0), (1, 0), (1, 0), (1, 0), (1, 1)]
   \<and> prefix (LineSliceAlong \<lparr>kx = 1, ky = 1\<rparr> 0 1 [(0, 0), (1, 0), (1, 1)])
        (lineSliceAlong \<lparr>kx = 1, ky = 1\<rparr> 0 1 [(0, 0), (1, 0), (1, 1)])
   \<and> LineDistance \<lparr>kx = 1, ky = 1\<rparr> (take 2 [(0, 0), (1, 0), (1, 1)]) < 5
   \<and> LineDistance \<lparr>kx = 1, ky = 1\<rparr> (take 3 [(0, 0), (1, 0), (1, 1)]) < 5
   \<and> LineSliceAlong \<lparr>kx = 1, ky = 1\<rparr> 0 5 [(0, 0), (1, 0), (1, 1)] =
       lineSliceAlong \<lparr>kx = 1, ky = 1\<rparr> 0 5 [(0, 0), (1, 0), (1, 1)]
   \<and> LineSliceAlong \<lparr>kx = 1, ky = 1\<rparr> 0 5 [(0, 0), (1, 0), (1, 1)] = [(0, 0), (1, 0), (1, 1)]"
proof -
  let ?r = "\<lparr>kx = 1, ky = 1\<rparr>"
  let ?l = "[(0, 0), (1, 0), (1, 1)] :: Line"
  have tk: "\<forall>j. j + 1 < length ?l \<longrightarrow> LineDistance ?r (take (j + 2) ?l) < 5"
  proof (intro allI impI)
    fix j :: nat
    assume "j + 1 < length ?l"
    then have "j = 0 \<or> j = 1" by auto
    then show "LineDistance ?r (take (j + 2) ?l) < 5"
      by (auto simp: LineDistance_def Distance_unit_east Distance_unit_north)
  qed
  have a: "LineSliceAlong ?r 0 1 ?l = [(0, 0), (1, 0)]"
    by (simp add: LineSliceAlong_def Distance_unit_east interpolate_def Let_def)
  have b: "lineSliceAlong ?r 0 1 ?l = [(0, 0), (1, 0), (1, 0), (1, 0), (1, 1)]"
    by (simp add: lineSliceAlong_def Distance_unit_east Distance_unit_north interpolate_def Let_def)
  have c: "LineSliceAlong ?r 0 5 ?l = [(0, 0), (1, 0), (1, 1)]"
    by (simp add: LineSliceAlong_def Distance_unit_east Distance_unit_north interpolate_def Let_def)
  have d: "LineDistance ?r (take 2 ?l) < 5" "LineDistance ?r (take 3 ?l) < 5"
    by (simp_all add: LineDistance_def Distance_unit_east Distance_unit_north)
  have P: "prefix (LineSliceAlong ?r 0 1 ?l) (lineSliceAlong ?r 0 1 ?l)"
    using LineSliceAlong_prefix_of_draft [of ?r 0 1 ?l] by (rule conjunct1)
  have E: "LineSliceAlong ?r 0 5 ?l = lineSliceAlong ?r 0 5 ?l"
    using LineSliceAlong_prefix_of_draft [of ?r 0 5 ?l, THEN conjunct2] tk by (rule mp)
  show ?thesis
    using a b P d E c by (intro conjI)
qed

subsection \<open>Slicing the whole line\<close>

lemma interpolate_0: "interpolate a b 0 = a"
  by (simp add: interpolate_def)

lemma interpolate_1: "interpolate a b 1 = b"
  by (simp add: interpolate_def)

lemma LineSliceAlong_loop_stop:
  assumes "sm = s + Distance r p0 p1"
    and "s1 = (if sm > start \<and> length acc = 0
               then acc @ [interpolate p0 p1 ((start - (sm - Distance r p0 p1)) / Distance r p0 p1)]
               else acc)"
    and "sm \<ge> stop"
  shows "LineSliceAlong_loop r start stop (p0 # p1 # rest) s acc =
         s1 @ [interpolate p0 p1 ((stop - (sm - Distance r p0 p1)) / Distance r p0 p1)]"
  using assms(3) unfolding assms(2) assms(1) by (simp add: Let_def)

lemma LineSliceAlong_loop_continue:
  assumes "sm = s + Distance r p0 p1"
    and "s1 = (if sm > start \<and> length acc = 0
               then acc @ [interpolate p0 p1 ((start - (sm - Distance r p0 p1)) / Distance r p0 p1)]
               else acc)"
    and "\<not> sm \<ge> stop"
  shows "LineSliceAlong_loop r start stop (p0 # p1 # rest) s acc =
         LineSliceAlong_loop r start stop (p1 # rest) sm (if sm > start then s1 @ [p1] else s1)"
  using assms(3) unfolding assms(2) assms(1) by (simp add: Let_def)

lemma whole_line_loop:
  "2 \<le> length l \<Longrightarrow>
   (\<forall>i. i + 1 < length l \<longrightarrow> 0 < Distance r (l ! i) (l ! (i + 1))) \<Longrightarrow>
   start \<le> s \<Longrightarrow> (acc = [] \<longrightarrow> s = start) \<Longrightarrow>
   LineSliceAlong_loop r start (LineDistance_loop r l s) l s acc =
     (if acc = [] then [hd l] else acc) @ tl l"
proof (induction l arbitrary: s acc)
  case Nil
  then show ?case by simp
next
  case (Cons p0 l')
  from Cons.prems(1) obtain p1 rest where l': "l' = p1 # rest"
    by (cases l') auto
  let ?d = "Distance r p0 p1"
  define sm where "sm = s + ?d"
  define s1 where "s1 = (if acc = [] then [p0] else acc)"
  have "0 + 1 < length (p0 # l')" by (simp add: l')
  then have "0 < Distance r ((p0 # l') ! 0) ((p0 # l') ! (0 + 1))"
    by (rule Cons.prems(2) [rule_format])
  then have dpos: "0 < ?d" by (simp add: l')
  have gt: "sm > start" using dpos Cons.prems(3) by (simp add: sm_def)
  have first: "s1 = (if sm > start \<and> length acc = 0
       then acc @ [interpolate p0 p1 ((start - (sm - ?d)) / ?d)] else acc)"
  proof (cases "acc = []")
    case True
    with Cons.prems(4) have "s = start" by simp
    then have "(start - (sm - ?d)) / ?d = 0" by (simp add: sm_def)
    then have "interpolate p0 p1 ((start - (sm - ?d)) / ?d) = p0"
      by (simp only: interpolate_0)
    with True gt show ?thesis by (simp add: s1_def)
  next
    case False
    then show ?thesis by (simp add: s1_def)
  qed
  show ?case
  proof (cases rest)
    case Nil
    have stop: "LineDistance_loop r (p0 # l') s = sm"
      by (simp add: l' Nil sm_def)
    have "(sm - (sm - ?d)) / ?d = 1" using dpos by simp
    then have "interpolate p0 p1 ((sm - (sm - ?d)) / ?d) = p1"
      by (simp only: interpolate_1)
    moreover have "LineSliceAlong_loop r start sm (p0 # p1 # rest) s acc =
        s1 @ [interpolate p0 p1 ((sm - (sm - ?d)) / ?d)]"
      by (rule LineSliceAlong_loop_stop [OF sm_def first]) simp
    ultimately have "LineSliceAlong_loop r start sm (p0 # l') s acc = s1 @ [p1]"
      by (simp only: l')
    then show ?thesis
      unfolding stop by (simp add: s1_def l' Nil del: LineSliceAlong_loop.simps)
  next
    case (Cons p2 rest')
    define stop where "stop = LineDistance_loop r l' sm"
    have stop_eq: "LineDistance_loop r (p0 # l') s = stop"
      by (simp add: l' stop_def sm_def)
    have "1 + 1 < length (p0 # l')" by (simp add: l' Cons)
    then have "0 < Distance r ((p0 # l') ! 1) ((p0 # l') ! (1 + 1))"
      by (rule Cons.prems(2) [rule_format])
    then have d1: "0 < Distance r p1 p2" by (simp add: l' Cons)
    have "sm + Distance r p1 p2 \<le> LineDistance_loop r (p2 # rest') (sm + Distance r p1 p2)"
      by (rule LineDistance_loop_ge)
    then have lt: "\<not> sm \<ge> stop" using d1 by (simp add: stop_def l' Cons)
    have "LineSliceAlong_loop r start stop (p0 # p1 # rest) s acc =
          LineSliceAlong_loop r start stop (p1 # rest) sm (if sm > start then s1 @ [p1] else s1)"
      by (rule LineSliceAlong_loop_continue [OF sm_def first lt])
    then have step: "LineSliceAlong_loop r start stop (p0 # l') s acc =
                LineSliceAlong_loop r start stop l' sm (s1 @ [p1])"
      using gt by (simp only: l' if_True)
    have len: "2 \<le> length l'" by (simp add: l' Cons)
    have pos: "\<forall>i. i + 1 < length l' \<longrightarrow> 0 < Distance r (l' ! i) (l' ! (i + 1))"
    proof (intro allI impI)
      fix i assume "i + 1 < length l'"
      then have "Suc i + 1 < length (p0 # l')" by simp
      then have "0 < Distance r ((p0 # l') ! Suc i) ((p0 # l') ! (Suc i + 1))"
        by (rule Cons.prems(2) [rule_format])
      then show "0 < Distance r (l' ! i) (l' ! (i + 1))" by simp
    qed
    have "LineSliceAlong_loop r start (LineDistance_loop r l' sm) l' sm (s1 @ [p1]) =
          (if s1 @ [p1] = [] then [hd l'] else s1 @ [p1]) @ tl l'"
      using len pos gt by (intro Cons.IH) simp_all
    then have "LineSliceAlong_loop r start stop l' sm (s1 @ [p1]) = s1 @ l'"
      by (simp add: stop_def l' del: LineSliceAlong_loop.simps)
    then show ?thesis
      unfolding stop_eq step by (simp add: s1_def del: LineSliceAlong_loop.simps)
  qed
qed

text \<open>
  C8: on a line of at least two points whose consecutive points are all at positive
  distance, \<open>LineSliceAlong r 0 (LineDistance r l) l\<close> is the line \<open>l\<close> itself
  (in real arithmetic).
\<close>

theorem LineSliceAlong_whole_line:
  assumes "2 \<le> length l"
    and "\<forall>i. i + 1 < length l \<longrightarrow> 0 < Distance r (l ! i) (l ! (i + 1))"
  shows "LineSliceAlong r 0 (LineDistance r l) l = l"
proof -
  from assms(1) have ne: "l \<noteq> []" by auto
  have "LineSliceAlong_loop r 0 (LineDistance_loop r l 0) l 0 [] =
        (if ([] :: Line) = [] then [hd l] else []) @ tl l"
    using assms by (intro whole_line_loop) simp_all
  then show ?thesis
    using ne by (simp add: LineSliceAlong_def LineDistance_def)
qed

theorem LineSliceAlong_whole_line_witness:
  "2 \<le> length ([(0, 0), (1, 0), (1, 1)] :: Line)
   \<and> 0 < Distance \<lparr>kx = 1, ky = 1\<rparr> (0, 0) (1, 0)
   \<and> 0 < Distance \<lparr>kx = 1, ky = 1\<rparr> (1, 0) (1, 1)
   \<and> LineDistance \<lparr>kx = 1, ky = 1\<rparr> [(0, 0), (1, 0), (1, 1)] = 2
   \<and> LineSliceAlong \<lparr>kx = 1, ky = 1\<rparr> 0 2 [(0, 0), (1, 0), (1, 1)] = [(0, 0), (1, 0), (1, 1)]"
proof -
  let ?r = "\<lparr>kx = 1, ky = 1\<rparr>"
  let ?l = "[(0, 0), (1, 0), (1, 1)] :: Line"
  have len: "2 \<le> length ?l" by simp
  have pos: "\<forall>i. i + 1 < length ?l \<longrightarrow> 0 < Distance ?r (?l ! i) (?l ! (i + 1))"
  proof (intro allI impI)
    fix i :: nat
    assume "i + 1 < length ?l"
    then have "i = 0 \<or> i = 1" by auto
    then show "0 < Distance ?r (?l ! i) (?l ! (i + 1))"
      by (auto simp: Distance_unit_east Distance_unit_north)
  qed
  have ld: "LineDistance ?r ?l = 2"
    by (simp add: LineDistance_def Distance_unit_east Distance_unit_north)
  have "LineSliceAlong ?r 0 (LineDistance ?r ?l) ?l = ?l"
    using len pos by (rule LineSliceAlong_whole_line)
  then have w: "LineSliceAlong ?r 0 2 ?l = ?l"
    by (simp only: ld)
  have e: "0 < Distance ?r (0, 0) (1, 0)" and n: "0 < Distance ?r (1, 0) (1, 1)"
    by (simp_all add: Distance_unit_east Distance_unit_north)
  show ?thesis
    using len e n ld w by (intro conjI)
qed

subsection \<open>Slicing between two distances: where the scan ends\<close>

lemma running_head:
  assumes "\<forall>j. j + 1 < length (p0 # p1 # rest) \<longrightarrow>
             P (LineDistance_loop r (take (j + 2) (p0 # p1 # rest)) s)"
  shows "P (s + Distance r p0 p1)"
proof -
  have "0 + 1 < length (p0 # p1 # rest)" by simp
  then have "P (LineDistance_loop r (take (0 + 2) (p0 # p1 # rest)) s)"
    by (rule assms [rule_format])
  then show ?thesis by simp
qed

lemma running_tail:
  assumes "\<forall>j. j + 1 < length (p0 # p1 # rest) \<longrightarrow>
             P (LineDistance_loop r (take (j + 2) (p0 # p1 # rest)) s)"
  shows "\<forall>j. j + 1 < length (p1 # rest) \<longrightarrow>
             P (LineDistance_loop r (take (j + 2) (p1 # rest)) (s + Distance r p0 p1))"
proof (intro allI impI)
  fix j assume "j + 1 < length (p1 # rest)"
  then have "Suc j + 1 < length (p0 # p1 # rest)" by simp
  then have "P (LineDistance_loop r (take (Suc j + 2) (p0 # p1 # rest)) s)"
    by (rule assms [rule_format])
  then show "P (LineDistance_loop r (take (j + 2) (p1 # rest)) (s + Distance r p0 p1))"
    by simp
qed

lemma running_head_below:
  assumes "\<forall>j<Suc k. P (LineDistance_loop r (take (j + 2) (p0 # p1 # rest)) s)"
  shows "P (s + Distance r p0 p1)"
proof -
  have "(0::nat) < Suc k" by simp
  then have "P (LineDistance_loop r (take (0 + 2) (p0 # p1 # rest)) s)"
    by (rule assms [rule_format])
  then show ?thesis by simp
qed

lemma running_tail_below:
  assumes "\<forall>j<Suc k. P (LineDistance_loop r (take (j + 2) (p0 # p1 # rest)) s)"
  shows "\<forall>j<k. P (LineDistance_loop r (take (j + 2) (p1 # rest)) (s + Distance r p0 p1))"
proof (intro allI impI)
  fix j assume "j < k"
  then have "Suc j < Suc k" by simp
  then have "P (LineDistance_loop r (take (Suc j + 2) (p0 # p1 # rest)) s)"
    by (rule assms [rule_format])
  then show "P (LineDistance_loop r (take (j + 2) (p1 # rest)) (s + Distance r p0 p1))"
    by simp
qed

lemma stop_at_first:
  "k + 1 < length l \<Longrightarrow>
   stop \<le> LineDistance_loop r (take (k + 2) l) s \<Longrightarrow>
   (\<forall>j<k. LineDistance_loop r (take (j + 2) l) s < stop) \<Longrightarrow>
   LineSliceAlong_loop r start stop l s acc =
     LineSliceAlong_loop r start stop (take (k + 2) l) s acc
   \<and> (\<exists>pre. LineSliceAlong_loop r start stop l s acc =
          pre @ [interpolate (l ! k) (l ! (k + 1))
                   ((stop - (LineDistance_loop r (take (k + 2) l) s
                       - Distance r (l ! k) (l ! (k + 1)))) / Distance r (l ! k) (l ! (k + 1)))])"
proof (induction k arbitrary: l s acc)
  case 0
  from "0.prems"(1) obtain p0 p1 rest where l: "l = p0 # p1 # rest"
    by (cases l; cases "tl l") auto
  define sm where "sm = s + Distance r p0 p1"
  define s1 where "s1 = (if sm > start \<and> length acc = 0
      then acc @ [interpolate p0 p1 ((start - (sm - Distance r p0 p1)) / Distance r p0 p1)]
      else acc)"
  have ge: "sm \<ge> stop" using "0.prems"(2) by (simp add: l sm_def)
  have a: "LineSliceAlong_loop r start stop (p0 # p1 # rest) s acc =
      s1 @ [interpolate p0 p1 ((stop - (sm - Distance r p0 p1)) / Distance r p0 p1)]"
    by (rule LineSliceAlong_loop_stop [OF sm_def s1_def ge])
  have b: "LineSliceAlong_loop r start stop (p0 # p1 # []) s acc =
      s1 @ [interpolate p0 p1 ((stop - (sm - Distance r p0 p1)) / Distance r p0 p1)]"
    by (rule LineSliceAlong_loop_stop [OF sm_def s1_def ge])
  have t: "take (0 + 2) l = [p0, p1]" by (simp add: l)
  have ld: "LineDistance_loop r [p0, p1] s = sm" by (simp add: sm_def)
  show ?case
    unfolding t ld using a b by (simp add: l del: LineSliceAlong_loop.simps)
next
  case (Suc k)
  from Suc.prems(1) obtain p0 p1 rest where l: "l = p0 # p1 # rest"
    by (cases l; cases "tl l") auto
  define sm where "sm = s + Distance r p0 p1"
  define s1 where "s1 = (if sm > start \<and> length acc = 0
      then acc @ [interpolate p0 p1 ((start - (sm - Distance r p0 p1)) / Distance r p0 p1)]
      else acc)"
  define acc' where "acc' = (if sm > start then s1 @ [p1] else s1)"
  have below: "\<forall>j<Suc k. LineDistance_loop r (take (j + 2) (p0 # p1 # rest)) s < stop"
    using Suc.prems(3) by (simp only: l)
  have lt: "\<not> sm \<ge> stop"
    using running_head_below [OF below] by (simp add: sm_def)
  have below': "\<forall>j<k. LineDistance_loop r (take (j + 2) (p1 # rest)) sm < stop"
    unfolding sm_def by (rule running_tail_below [OF below])
  have len': "k + 1 < length (p1 # rest)" using Suc.prems(1) by (simp add: l)
  have tk: "take (Suc k + 2) l = p0 # p1 # take (Suc k) rest" by (simp add: l)
  have tk': "take (k + 2) (p1 # rest) = p1 # take (Suc k) rest" by simp
  have ld: "LineDistance_loop r (take (Suc k + 2) l) s =
            LineDistance_loop r (take (k + 2) (p1 # rest)) sm"
    by (simp add: l sm_def)
  have ge': "stop \<le> LineDistance_loop r (take (k + 2) (p1 # rest)) sm"
    using Suc.prems(2) by (simp only: ld)
  have a: "LineSliceAlong_loop r start stop (p0 # p1 # rest) s acc =
           LineSliceAlong_loop r start stop (p1 # rest) sm acc'"
    unfolding acc'_def by (rule LineSliceAlong_loop_continue [OF sm_def s1_def lt])
  have b: "LineSliceAlong_loop r start stop (p0 # p1 # take (Suc k) rest) s acc =
           LineSliceAlong_loop r start stop (p1 # take (Suc k) rest) sm acc'"
    unfolding acc'_def by (rule LineSliceAlong_loop_continue [OF sm_def s1_def lt])
  have nth: "l ! Suc k = (p1 # rest) ! k" "l ! (Suc k + 1) = (p1 # rest) ! (k + 1)"
    by (simp_all add: l)
  note IH = Suc.IH [OF len' ge' below', of acc']
  have "LineSliceAlong_loop r start stop l s acc =
        LineSliceAlong_loop r start stop (p1 # rest) sm acc'"
    by (simp only: l a)
  also have "\<dots> = LineSliceAlong_loop r start stop (take (k + 2) (p1 # rest)) sm acc'"
    using IH by (rule conjunct1)
  also have "\<dots> = LineSliceAlong_loop r start stop (p0 # p1 # take (Suc k) rest) s acc"
    by (simp only: tk' b)
  also have "\<dots> = LineSliceAlong_loop r start stop (take (Suc k + 2) l) s acc"
    by (simp only: tk)
  finally have first: "LineSliceAlong_loop r start stop l s acc =
        LineSliceAlong_loop r start stop (take (Suc k + 2) l) s acc" .
  from IH obtain pre where pre: "LineSliceAlong_loop r start stop (p1 # rest) sm acc' =
      pre @ [interpolate ((p1 # rest) ! k) ((p1 # rest) ! (k + 1))
               ((stop - (LineDistance_loop r (take (k + 2) (p1 # rest)) sm
                   - Distance r ((p1 # rest) ! k) ((p1 # rest) ! (k + 1))))
                  / Distance r ((p1 # rest) ! k) ((p1 # rest) ! (k + 1)))]"
    by blast
  have "LineSliceAlong_loop r start stop l s acc =
      pre @ [interpolate (l ! Suc k) (l ! (Suc k + 1))
               ((stop - (LineDistance_loop r (take (Suc k + 2) l) s
                   - Distance r (l ! Suc k) (l ! (Suc k + 1))))
                  / Distance r (l ! Suc k) (l ! (Suc k + 1)))]"
    unfolding nth ld using pre by (simp only: l a)
  then have second: "\<exists>pre. LineSliceAlong_loop r start stop l s acc =
      pre @ [interpolate (l ! Suc k) (l ! (Suc k + 1))
               ((stop - (LineDistance_loop r (take (Suc k + 2) l) s
                   - Distance r (l ! Suc k) (l ! (Suc k + 1))))
                  / Distance r (l ! Suc k) (l ! (Suc k + 1)))]"
    by (rule exI)
  from first second show ?case by (rule conjI)
qed

lemma open_ended_tail:
  "start < s \<Longrightarrow> acc \<noteq> [] \<Longrightarrow>
   (\<forall>j. j + 1 < length l \<longrightarrow> LineDistance_loop r (take (j + 2) l) s < stop) \<Longrightarrow>
   LineSliceAlong_loop r start stop l s acc = acc @ tl l"
proof (induction l arbitrary: s acc)
  case Nil
  show ?case by simp
next
  case (Cons p0 l')
  show ?case
  proof (cases l')
    case Nil
    then show ?thesis by simp
  next
    case (Cons p1 rest)
    define sm where "sm = s + Distance r p0 p1"
    have never: "\<forall>j. j + 1 < length (p0 # p1 # rest) \<longrightarrow>
        LineDistance_loop r (take (j + 2) (p0 # p1 # rest)) s < stop"
      using Cons.prems(3) by (simp only: Cons)
    have lt: "\<not> sm \<ge> stop"
      using running_head [OF never] by (simp add: sm_def)
    have never': "\<forall>j. j + 1 < length l' \<longrightarrow> LineDistance_loop r (take (j + 2) l') sm < stop"
      unfolding sm_def Cons by (rule running_tail [OF never])
    have gt: "start < sm"
      using Cons.prems(1) Distance_nonneg [of r p0 p1] by (simp add: sm_def)
    have s1: "acc = (if sm > start \<and> length acc = 0
        then acc @ [interpolate p0 p1 ((start - (sm - Distance r p0 p1)) / Distance r p0 p1)]
        else acc)"
      using Cons.prems(2) by simp
    have "LineSliceAlong_loop r start stop (p0 # p1 # rest) s acc =
          LineSliceAlong_loop r start stop (p1 # rest) sm (if sm > start then acc @ [p1] else acc)"
      by (rule LineSliceAlong_loop_continue [OF sm_def s1 lt])
    then have step: "LineSliceAlong_loop r start stop (p0 # l') s acc =
          LineSliceAlong_loop r start stop l' sm (acc @ [p1])"
      using gt by (simp only: Cons if_True)
    have "LineSliceAlong_loop r start stop l' sm (acc @ [p1]) = (acc @ [p1]) @ tl l'"
      using gt never' by (intro Cons.IH) simp_all
    then show ?thesis
      unfolding step by (simp add: Cons del: LineSliceAlong_loop.simps)
  qed
qed

lemma open_ended_from:
  "i + 1 < length l \<Longrightarrow>
   start < LineDistance_loop r (take (i + 2) l) s \<Longrightarrow>
   (\<forall>j<i. LineDistance_loop r (take (j + 2) l) s \<le> start) \<Longrightarrow>
   (\<forall>j. j + 1 < length l \<longrightarrow> LineDistance_loop r (take (j + 2) l) s < stop) \<Longrightarrow>
   LineSliceAlong_loop r start stop l s [] =
     interpolate (l ! i) (l ! (i + 1))
       ((start - (LineDistance_loop r (take (i + 2) l) s - Distance r (l ! i) (l ! (i + 1))))
          / Distance r (l ! i) (l ! (i + 1)))
     # drop (i + 1) l"
proof (induction i arbitrary: l s)
  case 0
  from "0.prems"(1) obtain p0 p1 rest where l: "l = p0 # p1 # rest"
    by (cases l; cases "tl l") auto
  define sm where "sm = s + Distance r p0 p1"
  define x where "x = interpolate p0 p1 ((start - (sm - Distance r p0 p1)) / Distance r p0 p1)"
  have never: "\<forall>j. j + 1 < length (p0 # p1 # rest) \<longrightarrow>
      LineDistance_loop r (take (j + 2) (p0 # p1 # rest)) s < stop"
    using "0.prems"(4) by (simp only: l)
  have lt: "\<not> sm \<ge> stop"
    using running_head [OF never] by (simp add: sm_def)
  have never': "\<forall>j. j + 1 < length (p1 # rest) \<longrightarrow>
      LineDistance_loop r (take (j + 2) (p1 # rest)) sm < stop"
    unfolding sm_def by (rule running_tail [OF never])
  have gt: "start < sm" using "0.prems"(2) by (simp add: l sm_def)
  have s1: "[x] = (if sm > start \<and> length ([] :: Line) = 0
      then [] @ [interpolate p0 p1 ((start - (sm - Distance r p0 p1)) / Distance r p0 p1)]
      else [])"
    using gt by (simp add: x_def)
  have "LineSliceAlong_loop r start stop (p0 # p1 # rest) s [] =
        LineSliceAlong_loop r start stop (p1 # rest) sm (if sm > start then [x] @ [p1] else [x])"
    by (rule LineSliceAlong_loop_continue [OF sm_def s1 lt])
  then have step: "LineSliceAlong_loop r start stop (p0 # p1 # rest) s [] =
        LineSliceAlong_loop r start stop (p1 # rest) sm [x, p1]"
    using gt by simp
  have "LineSliceAlong_loop r start stop (p1 # rest) sm [x, p1] = [x, p1] @ tl (p1 # rest)"
    using gt never' by (intro open_ended_tail) simp_all
  then have "LineSliceAlong_loop r start stop l s [] = x # p1 # rest"
    unfolding l step by simp
  moreover have "LineDistance_loop r (take (0 + 2) l) s = sm" by (simp add: l sm_def)
  ultimately show ?case
    by (simp add: l x_def del: LineSliceAlong_loop.simps)
next
  case (Suc i)
  from Suc.prems(1) obtain p0 p1 rest where l: "l = p0 # p1 # rest"
    by (cases l; cases "tl l") auto
  define sm where "sm = s + Distance r p0 p1"
  have never: "\<forall>j. j + 1 < length (p0 # p1 # rest) \<longrightarrow>
      LineDistance_loop r (take (j + 2) (p0 # p1 # rest)) s < stop"
    using Suc.prems(4) by (simp only: l)
  have lt: "\<not> sm \<ge> stop"
    using running_head [OF never] by (simp add: sm_def)
  have never': "\<forall>j. j + 1 < length (p1 # rest) \<longrightarrow>
      LineDistance_loop r (take (j + 2) (p1 # rest)) sm < stop"
    unfolding sm_def by (rule running_tail [OF never])
  have below: "\<forall>j<Suc i. LineDistance_loop r (take (j + 2) (p0 # p1 # rest)) s \<le> start"
    using Suc.prems(3) by (simp only: l)
  have le: "\<not> start < sm"
    using running_head_below [OF below] by (simp add: sm_def)
  have below': "\<forall>j<i. LineDistance_loop r (take (j + 2) (p1 # rest)) sm \<le> start"
    unfolding sm_def by (rule running_tail_below [OF below])
  have len': "i + 1 < length (p1 # rest)" using Suc.prems(1) by (simp add: l)
  have ld: "LineDistance_loop r (take (Suc i + 2) l) s =
            LineDistance_loop r (take (i + 2) (p1 # rest)) sm"
    by (simp add: l sm_def)
  have gt': "start < LineDistance_loop r (take (i + 2) (p1 # rest)) sm"
    using Suc.prems(2) by (simp only: ld)
  have s1: "([] :: Line) = (if sm > start \<and> length ([] :: Line) = 0
      then [] @ [interpolate p0 p1 ((start - (sm - Distance r p0 p1)) / Distance r p0 p1)]
      else [])"
    using le by simp
  have "LineSliceAlong_loop r start stop (p0 # p1 # rest) s [] =
        LineSliceAlong_loop r start stop (p1 # rest) sm (if sm > start then [] @ [p1] else [])"
    by (rule LineSliceAlong_loop_continue [OF sm_def s1 lt])
  then have step: "LineSliceAlong_loop r start stop (p0 # p1 # rest) s [] =
        LineSliceAlong_loop r start stop (p1 # rest) sm []"
    using le by simp
  have nth: "l ! Suc i = (p1 # rest) ! i" "l ! (Suc i + 1) = (p1 # rest) ! (i + 1)"
    and dr: "drop (Suc i + 1) l = drop (i + 1) (p1 # rest)"
    by (simp_all add: l)
  note IH = Suc.IH [OF len' gt' below' never']
  show ?case
    unfolding ld nth dr using IH unfolding l step .
qed

lemma never_started:
  "(\<forall>j. j + 1 < length l \<longrightarrow> LineDistance_loop r (take (j + 2) l) s \<le> start) \<Longrightarrow>
   (\<forall>j. j + 1 < length l \<longrightarrow> LineDistance_loop r (take (j + 2) l) s < stop) \<Longrightarrow>
   LineSliceAlong_loop r start stop l s [] = []"
proof (induction l arbitrary: s)
  case Nil
  show ?case by simp
next
  case (Cons p0 l')
  show ?case
  proof (cases l')
    case Nil
    then show ?thesis by simp
  next
    case (Cons p1 rest)
    define sm where "sm = s + Distance r p0 p1"
    have never: "\<forall>j. j + 1 < length (p0 # p1 # rest) \<longrightarrow>
        LineDistance_loop r (take (j + 2) (p0 # p1 # rest)) s < stop"
      using Cons.prems(2) by (simp only: Cons)
    have low: "\<forall>j. j + 1 < length (p0 # p1 # rest) \<longrightarrow>
        LineDistance_loop r (take (j + 2) (p0 # p1 # rest)) s \<le> start"
      using Cons.prems(1) by (simp only: Cons)
    have lt: "\<not> sm \<ge> stop"
      using running_head [OF never] by (simp add: sm_def)
    have le: "\<not> start < sm"
      using running_head [OF low] by (simp add: sm_def)
    have never': "\<forall>j. j + 1 < length l' \<longrightarrow> LineDistance_loop r (take (j + 2) l') sm < stop"
      unfolding sm_def Cons by (rule running_tail [OF never])
    have low': "\<forall>j. j + 1 < length l' \<longrightarrow> LineDistance_loop r (take (j + 2) l') sm \<le> start"
      unfolding sm_def Cons by (rule running_tail [OF low])
    have s1: "([] :: Line) = (if sm > start \<and> length ([] :: Line) = 0
        then [] @ [interpolate p0 p1 ((start - (sm - Distance r p0 p1)) / Distance r p0 p1)]
        else [])"
      using le by simp
    have "LineSliceAlong_loop r start stop (p0 # p1 # rest) s [] =
          LineSliceAlong_loop r start stop (p1 # rest) sm (if sm > start then [] @ [p1] else [])"
      by (rule LineSliceAlong_loop_continue [OF sm_def s1 lt])
    then have step: "LineSliceAlong_loop r start stop (p0 # l') s [] =
          LineSliceAlong_loop r start stop l' sm []"
      using le by (simp add: Cons del: LineSliceAlong_loop.simps)
    show ?thesis
      unfolding step using low' never' by (rule Cons.IH)
  qed
qed

text \<open>
  C4. The running sum after segment \<open>j\<close> is the length of the first \<open>j + 2\<close> points.
  If segment \<open>k\<close> is the first one at which the running sum reaches or exceeds \<open>stop\<close>,
  then \<open>LineSliceAlong\<close> ends with the point interpolated at \<open>stop\<close> on segment \<open>k\<close>, and
  its result is the one it gives on the line cut after segment \<open>k\<close>: nothing of the later
  segments is appended. If the running sum never reaches \<open>stop\<close>, the result is what the
  scan has accumulated at the end of the line: nothing when the running sum never exceeds
  \<open>start\<close>, and otherwise the point interpolated at \<open>start\<close> on the first segment \<open>i\<close>
  whose running sum exceeds \<open>start\<close>, followed by all later points of the line.
\<close>

theorem LineSliceAlong_stop_or_end:
  "(k + 1 < length l \<and> stop \<le> LineDistance r (take (k + 2) l)
      \<and> (\<forall>j<k. LineDistance r (take (j + 2) l) < stop) \<longrightarrow>
        LineSliceAlong r start stop l = LineSliceAlong r start stop (take (k + 2) l)
        \<and> (\<exists>pre. LineSliceAlong r start stop l =
              pre @ [interpolate (l ! k) (l ! (k + 1))
                       ((stop - (LineDistance r (take (k + 2) l)
                           - Distance r (l ! k) (l ! (k + 1)))) / Distance r (l ! k) (l ! (k + 1)))]))
   \<and> ((\<forall>j. j + 1 < length l \<longrightarrow> LineDistance r (take (j + 2) l) < stop) \<longrightarrow>
        ((\<forall>j. j + 1 < length l \<longrightarrow> LineDistance r (take (j + 2) l) \<le> start) \<longrightarrow>
           LineSliceAlong r start stop l = [])
        \<and> (i + 1 < length l \<and> start < LineDistance r (take (i + 2) l)
             \<and> (\<forall>j<i. LineDistance r (take (j + 2) l) \<le> start) \<longrightarrow>
             LineSliceAlong r start stop l =
               interpolate (l ! i) (l ! (i + 1))
                 ((start - (LineDistance r (take (i + 2) l)
                     - Distance r (l ! i) (l ! (i + 1)))) / Distance r (l ! i) (l ! (i + 1)))
               # drop (i + 1) l))"
proof (intro conjI impI)
  assume h: "k + 1 < length l \<and> stop \<le> LineDistance r (take (k + 2) l)
      \<and> (\<forall>j<k. LineDistance r (take (j + 2) l) < stop)"
  then have 1: "k + 1 < length l"
    and 2: "stop \<le> LineDistance_loop r (take (k + 2) l) 0"
    and 3: "\<forall>j<k. LineDistance_loop r (take (j + 2) l) 0 < stop"
    unfolding LineDistance_def by blast+
  note S = stop_at_first [OF 1 2 3, of start "[]"]
  show "LineSliceAlong r start stop l = LineSliceAlong r start stop (take (k + 2) l)"
    unfolding LineSliceAlong_def using S by (rule conjunct1)
  show "\<exists>pre. LineSliceAlong r start stop l =
          pre @ [interpolate (l ! k) (l ! (k + 1))
                   ((stop - (LineDistance r (take (k + 2) l)
                       - Distance r (l ! k) (l ! (k + 1)))) / Distance r (l ! k) (l ! (k + 1)))]"
    unfolding LineSliceAlong_def LineDistance_def using S by (rule conjunct2)
next
  assume never: "\<forall>j. j + 1 < length l \<longrightarrow> LineDistance r (take (j + 2) l) < stop"
    and low: "\<forall>j. j + 1 < length l \<longrightarrow> LineDistance r (take (j + 2) l) \<le> start"
  show "LineSliceAlong r start stop l = []"
    unfolding LineSliceAlong_def
    using low never unfolding LineDistance_def by (rule never_started)
next
  assume never: "\<forall>j. j + 1 < length l \<longrightarrow> LineDistance r (take (j + 2) l) < stop"
    and h: "i + 1 < length l \<and> start < LineDistance r (take (i + 2) l)
             \<and> (\<forall>j<i. LineDistance r (take (j + 2) l) \<le> start)"
  from h have 1: "i + 1 < length l"
    and 2: "start < LineDistance_loop r (take (i + 2) l) 0"
    and 3: "\<forall>j<i. LineDistance_loop r (take (j + 2) l) 0 \<le> start"
    unfolding LineDistance_def by blast+
  from never have 4: "\<forall>j. j + 1 < length l \<longrightarrow> LineDistance_loop r (take (j + 2) l) 0 < stop"
    by (simp only: LineDistance_def)
  show "LineSliceAlong r start stop l =
          interpolate (l ! i) (l ! (i + 1))
            ((start - (LineDistance r (take (i + 2) l)
                - Distance r (l ! i) (l ! (i + 1)))) / Distance r (l ! i) (l ! (i + 1)))
          # drop (i + 1) l"
    unfolding LineSliceAlong_def LineDistance_def by (rule open_ended_from [OF 1 2 3 4])
qed

theorem LineSliceAlong_stop_or_end_witness:
  "LineDistance \<lparr>kx = 1, ky = 1\<rparr> (take 2 [(0, 0), (1, 0), (1, 1)]) = 1
   \<and> LineDistance \<lparr>kx = 1, ky = 1\<rparr> (take 3 [(0, 0), (1, 0), (1, 1)]) = 2
   \<and> LineSliceAlong \<lparr>kx = 1, ky = 1\<rparr> 0 (3 / 2) [(0, 0), (1, 0), (1, 1)] =
       LineSliceAlong \<lparr>kx = 1, ky = 1\<rparr> 0 (3 / 2) (take 3 [(0, 0), (1, 0), (1, 1)])
   \<and> (\<exists>pre. LineSliceAlong \<lparr>kx = 1, ky = 1\<rparr> 0 (3 / 2) [(0, 0), (1, 0), (1, 1)] =
          pre @ [(1, 1 / 2)])
   \<and> LineSliceAlong \<lparr>kx = 1, ky = 1\<rparr> 5 10 [(0, 0), (1, 0), (1, 1)] = []
   \<and> LineSliceAlong \<lparr>kx = 1, ky = 1\<rparr> (3 / 2) 10 [(0, 0), (1, 0), (1, 1)] = [(1, 1 / 2), (1, 1)]"
proof -
  let ?r = "\<lparr>kx = 1, ky = 1\<rparr>"
  let ?l = "[(0, 0), (1, 0), (1, 1)] :: Line"
  have ld2: "LineDistance ?r (take 2 ?l) = 1"
    by (simp add: LineDistance_def Distance_unit_east)
  have ld3: "LineDistance ?r (take 3 ?l) = 2"
    by (simp add: LineDistance_def Distance_unit_east Distance_unit_north)
  have run: "LineDistance ?r (take (j + 2) ?l) \<le> 2" if "j + 1 < length ?l" for j
  proof -
    from that have "j = 0 \<or> j = 1" by auto
    then show ?thesis using ld2 ld3 by auto
  qed
  have ip: "interpolate (1, 0) (1, 1) (1 / 2) = (1, 1 / 2)"
    by (simp add: interpolate_def)
  have below: "\<forall>j<1. LineDistance ?r (take (j + 2) ?l) < 3 / 2"
    using ld2 by simp
  have below': "\<forall>j<1. LineDistance ?r (take (j + 2) ?l) \<le> 3 / 2"
    using ld2 by simp
  have never: "\<forall>j. j + 1 < length ?l \<longrightarrow> LineDistance ?r (take (j + 2) ?l) < 10"
    using run by fastforce
  have low: "\<forall>j. j + 1 < length ?l \<longrightarrow> LineDistance ?r (take (j + 2) ?l) \<le> 5"
    using run by fastforce
  have hA: "1 + 1 < length ?l \<and> 3 / 2 \<le> LineDistance ?r (take (1 + 2) ?l)
      \<and> (\<forall>j<1. LineDistance ?r (take (j + 2) ?l) < 3 / 2)"
    using ld3 below by simp
  have hB: "1 + 1 < length ?l \<and> 3 / 2 < LineDistance ?r (take (1 + 2) ?l)
      \<and> (\<forall>j<1. LineDistance ?r (take (j + 2) ?l) \<le> 3 / 2)"
    using ld3 below' by simp
  note A = LineSliceAlong_stop_or_end [where r = ?r and l = ?l and k = 1 and stop = "3 / 2"
      and start = 0, THEN conjunct1, THEN mp, OF hA]
  note B = LineSliceAlong_stop_or_end [where r = ?r and l = ?l and stop = 10 and start = 5,
      THEN conjunct2, THEN mp, OF never, THEN conjunct1, THEN mp, OF low]
  note C = LineSliceAlong_stop_or_end [where r = ?r and l = ?l and stop = 10 and start = "3 / 2"
      and i = 1, THEN conjunct2, THEN mp, OF never, THEN conjunct2, THEN mp, OF hB]
  have a1: "LineSliceAlong ?r 0 (3 / 2) ?l = LineSliceAlong ?r 0 (3 / 2) (take 3 ?l)"
    using A [THEN conjunct1] by simp
  have a2: "\<exists>pre. LineSliceAlong ?r 0 (3 / 2) ?l = pre @ [(1, 1 / 2)]"
    using A [THEN conjunct2] ld3 ip by (simp add: Distance_unit_north)
  have c: "LineSliceAlong ?r (3 / 2) 10 ?l = [(1, 1 / 2), (1, 1)]"
    using C ld3 ip by (simp add: Distance_unit_north)
  show ?thesis
    using ld2 ld3 a1 a2 B c by (intro conjI)
qed

subsection \<open>Snapping a point onto a line\<close>











end
